theory Spec2Isabelle
  imports Complex_Main
begin

section \<open>Hann window along the longitude axis\<close>

text \<open>
  The embedding follows \<^verbatim>\<open>apply_hann_window_lon(da, center_lon, window_size)\<close> of
  \<^verbatim>\<open>apply_hanning_window.py\<close> statement by statement. Python floats are read as
  real numbers (no rounding, no NaN, no infinities); every exception the function can
  raise is a value of \<open>error\<close>.
\<close>

subsection \<open>Errors and numbers\<close>

datatype error = AttributeError | IndexError | ValueError

text \<open>
  \<open>center_lon\<close> is a Python number: the docstring says float, callers also pass an int.
  Both are formatted differently by the f-string of the description, so the model keeps
  the distinction.
\<close>

datatype pynum = PyInt int | PyFloat real

fun num_val :: "pynum \<Rightarrow> real" where
  "num_val (PyInt i) = real_of_int i"
| "num_val (PyFloat r) = r"

text \<open>Python's \<^verbatim>\<open>abs\<close> keeps the type of its argument.\<close>

fun num_abs :: "pynum \<Rightarrow> pynum" where
  "num_abs (PyInt i) = PyInt \<bar>i\<bar>"
| "num_abs (PyFloat r) = PyFloat \<bar>r\<bar>"

text \<open>
  \<^verbatim>\<open>int(window_size / 2)\<close>: true division followed by truncation towards zero.
\<close>

definition int_half :: "int \<Rightarrow> int" where
  "int_half w = (if 0 \<le> w then w div 2 else - ((- w) div 2))"

subsection \<open>The numpy functions the code calls\<close>

text \<open>
  \<^verbatim>\<open>np.arange(start, stop, step)\<close>: \<open>ceil((stop - start) / step)\<close> values
  \<open>start + i * step\<close>, none when that count is not positive. A zero step raises
  (\<^verbatim>\<open>ZeroDivisionError\<close> on ints, \<^verbatim>\<open>ValueError\<close> on floats); the model has one
  error for both.
\<close>

definition arange :: "real \<Rightarrow> real \<Rightarrow> real \<Rightarrow> error + real list" where
  "arange start stop step =
     (if step = 0 then Inl ValueError
      else Inr (map (\<lambda>i. start + real i * step)
                  [0 ..< nat \<lceil>(stop - start) / step\<rceil>]))"

text \<open>
  \<^verbatim>\<open>np.hanning(M)\<close>, as numpy defines it: empty for \<open>M < 1\<close>, the single value 1 for
  \<open>M = 1\<close>, and otherwise \<open>0.5 + 0.5 * cos(pi * n / (M - 1))\<close> for
  \<open>n = 1 - M, 3 - M, ..., M - 1\<close> (\<^verbatim>\<open>arange(1 - M, M, 2)\<close>).
\<close>

definition hanning :: "int \<Rightarrow> real list" where
  "hanning M =
     (if M < 1 then []
      else if M = 1 then [1]
      else map (\<lambda>i. 1 / 2 + 1 / 2 * cos (pi * real_of_int (1 - M + 2 * int i) / real_of_int (M - 1)))
             [0 ..< nat M])"

text \<open>\<^verbatim>\<open>np.zeros(n)\<close>.\<close>

definition zeros :: "nat \<Rightarrow> real list" where
  "zeros n = replicate n 0"

text \<open>
  \<^verbatim>\<open>np.searchsorted(a, v)\<close> with the default \<^verbatim>\<open>side='left'\<close>: a binary search
  of \<open>a\<close> for each key, returning the first position whose element is not below the key.
  numpy asks for \<open>a\<close> sorted in ascending order and promises nothing otherwise; on a
  sorted array every binary search returns the position computed here.
\<close>

function bisect_left :: "real list \<Rightarrow> real \<Rightarrow> nat \<Rightarrow> nat \<Rightarrow> nat" where
  "bisect_left a v lo hi =
     (if lo < hi then
        (let mid = lo + (hi - lo) div 2 in
         if a ! mid < v then bisect_left a v (mid + 1) hi
         else bisect_left a v lo mid)
      else lo)"
  by pat_completeness auto
termination
  by (relation "measure (\<lambda>(a, v, lo, hi). hi - lo)") auto

declare bisect_left.simps [simp del]

definition searchsorted :: "real list \<Rightarrow> real list \<Rightarrow> nat list" where
  "searchsorted a vs = map (\<lambda>v. bisect_left a v 0 (length a)) vs"

text \<open>
  \<^verbatim>\<open>x[i:j] = w\<close> on a one-dimensional array, for \<open>0 \<le> i\<close> and \<open>0 \<le> j\<close>: both bounds
  are clipped to the length of \<open>x\<close>, the slice is empty when the clipped bounds cross,
  and \<open>w\<close> must have the length of the slice or length one (it is then broadcast);
  otherwise numpy raises \<^verbatim>\<open>ValueError: could not broadcast input array\<close>.
\<close>

definition slice_len :: "nat \<Rightarrow> nat \<Rightarrow> nat \<Rightarrow> nat" where
  "slice_len n i j = min j n - min i n"

definition set_slice :: "real list \<Rightarrow> nat \<Rightarrow> nat \<Rightarrow> real list \<Rightarrow> error + real list" where
  "set_slice x i j w =
     (let n = length x; k = slice_len n i j in
      if length w = k then Inr (take (min i n) x @ w @ drop (min i n + k) x)
      else if length w = 1 then Inr (take (min i n) x @ replicate k (hd w) @ drop (min i n + k) x)
      else Inl ValueError)"

subsection \<open>The mask\<close>

definition left_ext :: "real \<Rightarrow> int \<Rightarrow> real" where
  "left_ext center_lon window_size = center_lon - real_of_int (int_half window_size)"

definition right_ext :: "real \<Rightarrow> int \<Rightarrow> real" where
  "right_ext center_lon window_size = center_lon + real_of_int (int_half window_size)"

text \<open>
  \<^verbatim>\<open>abs(da.lon[0] - da.lon[1])\<close>: indexing a coordinate with fewer than two entries
  raises \<^verbatim>\<open>IndexError\<close>.
\<close>

definition lon_resolution :: "real list \<Rightarrow> error + real" where
  "lon_resolution lon =
     (if length lon < 2 then Inl IndexError else Inr \<bar>lon ! 0 - lon ! 1\<bar>)"

text \<open>
  The candidate coordinates \<^verbatim>\<open>np.arange(left_ext, right_ext + lon_resolution,
  lon_resolution)\<close> and their positions \<open>lon_indices\<close> on the axis.
\<close>

definition candidates :: "real list \<Rightarrow> real \<Rightarrow> int \<Rightarrow> error + real list" where
  "candidates lon center_lon window_size =
     (case lon_resolution lon of
        Inl e \<Rightarrow> Inl e
      | Inr res \<Rightarrow>
          arange (left_ext center_lon window_size) (right_ext center_lon window_size + res) res)"

definition lon_indices :: "real list \<Rightarrow> real \<Rightarrow> int \<Rightarrow> error + nat list" where
  "lon_indices lon center_lon window_size =
     (case candidates lon center_lon window_size of
        Inl e \<Rightarrow> Inl e
      | Inr cs \<Rightarrow> Inr (searchsorted lon cs))"

text \<open>
  \<open>hann_filter\<close> after line 32 of the source: zeros over the whole axis, with
  \<open>hann_window\<close> assigned to \<^verbatim>\<open>[lon_indices[0] : lon_indices[-1] + 1]\<close>. Reading
  \<^verbatim>\<open>lon_indices[0]\<close> of an empty array raises \<^verbatim>\<open>IndexError\<close>.
\<close>

definition hann_filter :: "real list \<Rightarrow> real \<Rightarrow> int \<Rightarrow> error + real list" where
  "hann_filter lon center_lon window_size =
     (case lon_indices lon center_lon window_size of
        Inl e \<Rightarrow> Inl e
      | Inr ix \<Rightarrow>
          if ix = [] then Inl IndexError
          else set_slice (zeros (length lon)) (hd ix) (last ix + 1) (hanning window_size))"

subsection \<open>The labelled array\<close>

text \<open>
  An \<^verbatim>\<open>xarray.DataArray\<close> over (time, lat, lon): its name, the dimension names, the
  coordinate vectors by name, the shape and the values (one list of latitude rows per
  time step), and the attribute dictionary.
\<close>

record data_array =
  name :: "string option"
  dims :: "string list"
  coords :: "string \<Rightarrow> real list option"
  shape :: "nat \<times> nat \<times> nat"
  vals :: "real list list list"
  attrs :: "string \<Rightarrow> string option"

text \<open>
  What xarray guarantees of a three-dimensional array whose last dimension is \<open>lon\<close>: the
  values fill the shape, and the \<open>lon\<close> coordinate has one entry per longitude sample.
\<close>

definition has_shape :: "nat \<times> nat \<times> nat \<Rightarrow> real list list list \<Rightarrow> bool" where
  "has_shape sh v =
     (case sh of (s0, s1, s2) \<Rightarrow>
        length v = s0 \<and> list_all (\<lambda>p. length p = s1 \<and> list_all (\<lambda>r. length r = s2) p) v)"

definition valid_da :: "data_array \<Rightarrow> bool" where
  "valid_da da =
     (length (dims da) = 3 \<and> dims da ! 2 = ''lon'' \<and>
      (case coords da ''lon'' of
         None \<Rightarrow> False
       | Some lon \<Rightarrow> length lon = snd (snd (shape da))) \<and>
      has_shape (shape da) (vals da))"

text \<open>
  \<^verbatim>\<open>np.tile(hann_filter, (da.shape[0], da.shape[1], 1))\<close>: the mask repeated for
  every time step and latitude.
\<close>

definition tile :: "real list \<Rightarrow> nat \<Rightarrow> nat \<Rightarrow> (nat \<times> nat \<times> nat) \<times> real list list list" where
  "tile x s0 s1 = ((s0, s1, length x), replicate s0 (replicate s1 x))"

text \<open>
  The elementwise product \<^verbatim>\<open>da.copy() * hann_filter_full\<close>. For an array laid out as
  (time, lat, lon) both operands have the same shape. Where the shapes differ the model
  stops with \<^verbatim>\<open>ValueError\<close>; numpy would first try to stretch an axis of size one,
  which no array satisfying \<open>valid_da\<close> needs.
\<close>

definition mul3 ::
  "(nat \<times> nat \<times> nat) \<times> real list list list \<Rightarrow> (nat \<times> nat \<times> nat) \<times> real list list list
     \<Rightarrow> error + (nat \<times> nat \<times> nat) \<times> real list list list" where
  "mul3 a b =
     (if fst a = fst b then Inr (fst a, map2 (map2 (map2 (*))) (snd a) (snd b))
      else Inl ValueError)"

subsection \<open>The description attribute\<close>

definition digit :: "nat \<Rightarrow> char" where
  "digit n = ''0123456789'' ! n"

fun str_nat :: "nat \<Rightarrow> string" where
  "str_nat n = (if n < 10 then [digit n] else str_nat (n div 10) @ [digit (n mod 10)])"

declare str_nat.simps [simp del]

definition str_int :: "int \<Rightarrow> string" where
  "str_int i = (if i < 0 then CHR ''-'' # str_nat (nat (- i)) else str_nat (nat i))"

text \<open>
  What the call depends on besides its arguments: how Python prints a float (its
  shortest round-trip decimal, which a real number does not determine) and xarray's
  option \<^verbatim>\<open>keep_attrs\<close>, which decides whether the product keeps the attributes of
  \<open>da\<close> (xarray's default differs between releases).
\<close>

record env =
  float_str :: "real \<Rightarrow> string"
  keep_attrs :: bool

fun num_str :: "env \<Rightarrow> pynum \<Rightarrow> string" where
  "num_str E (PyInt i) = str_int i"
| "num_str E (PyFloat r) = float_str E r"

definition description :: "env \<Rightarrow> pynum \<Rightarrow> int \<Rightarrow> string" where
  "description E center_lon window_size =
     (if 0 \<le> num_val center_lon
      then ''Hanning window of size '' @ str_int window_size @ '' applied at ''
             @ num_str E center_lon @ ''E''
      else ''Hanning window of size '' @ str_int window_size @ '' applied at ''
             @ num_str E (num_abs center_lon) @ ''W'')"

subsection \<open>The function\<close>

definition apply_hann_window_lon ::
  "env \<Rightarrow> data_array \<Rightarrow> pynum \<Rightarrow> int \<Rightarrow> error + data_array" where
  "apply_hann_window_lon E da center_lon window_size =
     (case coords da ''lon'' of
        None \<Rightarrow> Inl AttributeError
      | Some lon \<Rightarrow>
          (case hann_filter lon (num_val center_lon) window_size of
             Inl e \<Rightarrow> Inl e
           | Inr hf \<Rightarrow>
               (case mul3 (shape da, vals da) (tile hf (fst (shape da)) (fst (snd (shape da)))) of
                  Inl e \<Rightarrow> Inl e
                | Inr (sh, v) \<Rightarrow>
                    Inr \<lparr> name = name da, dims = dims da, coords = coords da,
                          shape = sh, vals = v,
                          attrs = (if keep_attrs E then attrs da else Map.empty)
                                    (''description'' \<mapsto> description E center_lon window_size) \<rparr>)))"

subsection \<open>What the specification says of the result\<close>

text \<open>
  The specification's words for the output values: the input multiplied elementwise by
  the mask, the mask being broadcast over time and latitude. It is stated apart from
  the code's \<open>tile\<close> and \<open>mul3\<close> and compared with them below.
\<close>

definition scale_lon :: "real list \<Rightarrow> real list list list \<Rightarrow> real list list list" where
  "scale_lon m v = map (map (\<lambda>row. map2 (*) row m)) v"

text \<open>
  A longitude axis whose samples are exactly one unit apart, \<open>lon[i] = lon[0] + i\<close>
  (strictly ascending, uniformly spaced with spacing 1).
\<close>

definition unit_spaced :: "real list \<Rightarrow> bool" where
  "unit_spaced lon = (lon = map (\<lambda>i. lon ! 0 + real i) [0 ..< length lon])"

subsection \<open>The function on a store\<close>

text \<open>
  To speak of mutation and of fresh objects, the same statements are run on an explicit
  store. An address is a position in the store. A \<open>DataArrayObj\<close> holds its name,
  dimension names and coordinates, and the addresses of its value buffer and of its
  attribute dictionary; coordinates are held by value, since xarray never writes to
  an index. Every numpy and xarray call of the source allocates its result; the two
  statements of the source that write in place are the slice assignment of line 32 and
  \<^verbatim>\<open>attrs.update\<close> of line 44.
\<close>

datatype obj =
    Array1 "real list"
  | Array3 "nat \<times> nat \<times> nat" "real list list list"
  | Dict "string \<Rightarrow> string option"
  | DataArrayObj "string option" "string list" "string \<Rightarrow> real list option" nat nat

type_synonym heap = "obj list"

definition alloc :: "heap \<Rightarrow> obj \<Rightarrow> heap \<times> nat" where
  "alloc h x = (h @ [x], length h)"

definition array1_at :: "heap \<Rightarrow> nat \<Rightarrow> real list option" where
  "array1_at h a =
     (if a < length h then (case h ! a of Array1 x \<Rightarrow> Some x | _ \<Rightarrow> None) else None)"

definition array3_at :: "heap \<Rightarrow> nat \<Rightarrow> ((nat \<times> nat \<times> nat) \<times> real list list list) option" where
  "array3_at h a =
     (if a < length h then (case h ! a of Array3 sh v \<Rightarrow> Some (sh, v) | _ \<Rightarrow> None) else None)"

definition dict_at :: "heap \<Rightarrow> nat \<Rightarrow> (string \<Rightarrow> string option) option" where
  "dict_at h a =
     (if a < length h then (case h ! a of Dict d \<Rightarrow> Some d | _ \<Rightarrow> None) else None)"

text \<open>The array an address denotes: the object with its buffer and its attributes.\<close>

definition da_at :: "heap \<Rightarrow> nat \<Rightarrow> data_array option" where
  "da_at h p =
     (if p < length h then
        (case h ! p of
           DataArrayObj nm ds cs d a \<Rightarrow>
             (case array3_at h d of
                None \<Rightarrow> None
              | Some (sh, v) \<Rightarrow>
                  (case dict_at h a of
                     None \<Rightarrow> None
                   | Some ats \<Rightarrow>
                       Some \<lparr> name = nm, dims = ds, coords = cs, shape = sh, vals = v,
                              attrs = ats \<rparr>))
         | _ \<Rightarrow> None)
      else None)"

text \<open>\<^verbatim>\<open>x[i:j] = w\<close> in place: the array at \<open>a\<close> is overwritten.\<close>

definition store_slice :: "heap \<Rightarrow> nat \<Rightarrow> nat \<Rightarrow> nat \<Rightarrow> nat \<Rightarrow> error + heap" where
  "store_slice h a i j src =
     (case array1_at h a of
        None \<Rightarrow> Inl AttributeError
      | Some x \<Rightarrow>
          (case array1_at h src of
             None \<Rightarrow> Inl AttributeError
           | Some w \<Rightarrow>
               (case set_slice x i j w of
                  Inl e \<Rightarrow> Inl e
                | Inr m \<Rightarrow> Inr (h[a := Array1 m]))))"

text \<open>Lines 22 to 32: \<open>hann_window\<close> and \<open>hann_filter\<close> are new arrays.\<close>

definition hann_filter_heap :: "heap \<Rightarrow> real list \<Rightarrow> real \<Rightarrow> int \<Rightarrow> error + heap \<times> nat" where
  "hann_filter_heap h lon center_lon window_size =
     (case lon_resolution lon of
        Inl e \<Rightarrow> Inl e
      | Inr res \<Rightarrow>
          (case alloc h (Array1 (hanning window_size)) of
             (h1, hann_window) \<Rightarrow>
               (case alloc h1 (Array1 (zeros (length lon))) of
                  (h2, hf) \<Rightarrow>
                    (case arange (left_ext center_lon window_size)
                            (right_ext center_lon window_size + res) res of
                       Inl e \<Rightarrow> Inl e
                     | Inr cs \<Rightarrow>
                         (let ix = searchsorted lon cs in
                          if ix = [] then Inl IndexError
                          else (case store_slice h2 hf (hd ix) (last ix + 1) hann_window of
                                  Inl e \<Rightarrow> Inl e
                                | Inr h3 \<Rightarrow> Inr (h3, hf)))))))"

text \<open>\<^verbatim>\<open>da.copy()\<close>: a new object with a copy of the values and of the attributes.\<close>

definition copy_da :: "heap \<Rightarrow> nat \<Rightarrow> error + heap \<times> nat" where
  "copy_da h p =
     (case da_at h p of
        None \<Rightarrow> Inl AttributeError
      | Some da \<Rightarrow>
          (case alloc h (Array3 (shape da) (vals da)) of
             (h1, d) \<Rightarrow>
               (case alloc h1 (Dict (attrs da)) of
                  (h2, a) \<Rightarrow> Inr (alloc h2 (DataArrayObj (name da) (dims da) (coords da) d a)))))"

text \<open>
  \<^verbatim>\<open>x * y\<close> for a DataArray \<open>x\<close> and an array \<open>y\<close>: a new DataArray with new values;
  its attributes are those of \<open>x\<close> when \<^verbatim>\<open>keep_attrs\<close> is set and empty otherwise.
\<close>

definition mul_da :: "env \<Rightarrow> heap \<Rightarrow> nat \<Rightarrow> nat \<Rightarrow> error + heap \<times> nat" where
  "mul_da E h x y =
     (case da_at h x of
        None \<Rightarrow> Inl AttributeError
      | Some da \<Rightarrow>
          (case array3_at h y of
             None \<Rightarrow> Inl AttributeError
           | Some b \<Rightarrow>
               (case mul3 (shape da, vals da) b of
                  Inl e \<Rightarrow> Inl e
                | Inr (sh, v) \<Rightarrow>
                    (case alloc h (Array3 sh v) of
                       (h1, d) \<Rightarrow>
                         (case alloc h1 (Dict (if keep_attrs E then attrs da else Map.empty)) of
                            (h2, a) \<Rightarrow>
                              Inr (alloc h2 (DataArrayObj (name da) (dims da) (coords da) d a)))))))"

text \<open>
  \<^verbatim>\<open>xr.DataArray(data=w, name=da.name, dims=da.dims, coords=da.coords)\<close> for a
  DataArray \<open>w\<close>: a new object over the values of \<open>w\<close>, with a new dictionary holding the
  attributes of \<open>w\<close>, and the name, dimensions and coordinates of \<open>da\<close>.
\<close>

definition new_data_array :: "heap \<Rightarrow> nat \<Rightarrow> nat \<Rightarrow> error + heap \<times> nat" where
  "new_data_array h w p =
     (case da_at h p of
        None \<Rightarrow> Inl AttributeError
      | Some da \<Rightarrow>
          (if w < length h then
             (case h ! w of
                DataArrayObj nm ds cs d a \<Rightarrow>
                  (case dict_at h a of
                     None \<Rightarrow> Inl AttributeError
                   | Some ats \<Rightarrow>
                       (case alloc h (Dict ats) of
                          (h1, a') \<Rightarrow>
                            Inr (alloc h1 (DataArrayObj (name da) (dims da) (coords da) d a'))))
              | _ \<Rightarrow> Inl AttributeError)
           else Inl AttributeError))"

text \<open>\<^verbatim>\<open>x.attrs.update({k: v})\<close>: the dictionary of \<open>x\<close> is overwritten in place.\<close>

definition attrs_update :: "heap \<Rightarrow> nat \<Rightarrow> string \<Rightarrow> string \<Rightarrow> error + heap" where
  "attrs_update h x k v =
     (if x < length h then
        (case h ! x of
           DataArrayObj nm ds cs d a \<Rightarrow>
             (case dict_at h a of
                None \<Rightarrow> Inl AttributeError
              | Some ats \<Rightarrow> Inr (h[a := Dict (ats(k \<mapsto> v))]))
         | _ \<Rightarrow> Inl AttributeError)
      else Inl AttributeError)"

text \<open>\<^verbatim>\<open>np.tile(x, (s0, s1, 1))\<close>: a new array.\<close>

definition tile_heap :: "heap \<Rightarrow> nat \<Rightarrow> nat \<Rightarrow> nat \<Rightarrow> error + heap \<times> nat" where
  "tile_heap h x s0 s1 =
     (case array1_at h x of
        None \<Rightarrow> Inl AttributeError
      | Some m \<Rightarrow> (case tile m s0 s1 of (sh, v) \<Rightarrow> Inr (alloc h (Array3 sh v))))"

text \<open>
  The whole function: \<open>p\<close> is the address of \<open>da\<close>; the result is the final store and the
  address of the returned array. Each statement reads \<open>da\<close> from the store as it is then.
\<close>

definition apply_hann_window_lon_heap ::
  "env \<Rightarrow> heap \<Rightarrow> nat \<Rightarrow> pynum \<Rightarrow> int \<Rightarrow> error + heap \<times> nat" where
  "apply_hann_window_lon_heap E h p center_lon window_size =
     (case da_at h p of
        None \<Rightarrow> Inl AttributeError
      | Some da \<Rightarrow>
     (case coords da ''lon'' of
        None \<Rightarrow> Inl AttributeError
      | Some lon \<Rightarrow>
     (case hann_filter_heap h lon (num_val center_lon) window_size of
        Inl e \<Rightarrow> Inl e
      | Inr (h3, hf) \<Rightarrow>
     (case da_at h3 p of
        None \<Rightarrow> Inl AttributeError
      | Some da3 \<Rightarrow>
     (case tile_heap h3 hf (fst (shape da3)) (fst (snd (shape da3))) of
        Inl e \<Rightarrow> Inl e
      | Inr (h4, full) \<Rightarrow>
     (case copy_da h4 p of
        Inl e \<Rightarrow> Inl e
      | Inr (h5, cp) \<Rightarrow>
     (case mul_da E h5 cp full of
        Inl e \<Rightarrow> Inl e
      | Inr (h6, w) \<Rightarrow>
     (case new_data_array h6 w p of
        Inl e \<Rightarrow> Inl e
      | Inr (h7, r) \<Rightarrow>
     (case attrs_update h7 r ''description'' (description E center_lon window_size) of
        Inl e \<Rightarrow> Inl e
      | Inr h8 \<Rightarrow> Inr (h8, r))))))))))"


subsection \<open>Example inputs\<close>

text \<open>
  A small array used where a theorem is instantiated: seven longitudes one degree
  apart, one time step, two latitudes. The examples pass Python ints for \<open>center_lon\<close>,
  so the printing of floats is never called.
\<close>

abbreviation ex_env :: env where
  "ex_env \<equiv> \<lparr> float_str = (\<lambda>r. []), keep_attrs = False \<rparr>"

abbreviation ex_lon :: "real list" where
  "ex_lon \<equiv> [0, 1, 2, 3, 4, 5, 6]"

abbreviation ex_da :: data_array where
  "ex_da \<equiv> \<lparr> name = Some ''t2m'', dims = [''time'', ''lat'', ''lon''],
              coords = [''lon'' \<mapsto> ex_lon], shape = (1, 2, 7),
              vals = [[[1, 2, 3, 4, 5, 6, 7], [2, 2, 2, 2, 2, 2, 2]]],
              attrs = Map.empty \<rparr>"

text \<open>Two stores that hold the example array at address 2, laid out differently.\<close>

abbreviation ex_heap :: heap where
  "ex_heap \<equiv> [Array3 (1, 2, 7) [[[1, 2, 3, 4, 5, 6, 7], [2, 2, 2, 2, 2, 2, 2]]],
               Dict Map.empty,
               DataArrayObj (Some ''t2m'') [''time'', ''lat'', ''lon''] [''lon'' \<mapsto> ex_lon] 0 1]"


section \<open>Properties\<close>

subsection \<open>The numpy functions\<close>

lemma length_hanning: "length (hanning M) = nat M"
  by (simp add: hanning_def)

lemma hanning_bounds: "x \<in> set (hanning M) \<Longrightarrow> 0 \<le> x \<and> x \<le> 1"
proof -
  have c: "\<And>t::real. 0 \<le> 1 / 2 + 1 / 2 * cos t \<and> 1 / 2 + 1 / 2 * cos t \<le> 1"
  proof -
    fix t :: real
    have "- 1 \<le> cos t" "cos t \<le> 1" by simp_all
    then show "0 \<le> 1 / 2 + 1 / 2 * cos t \<and> 1 / 2 + 1 / 2 * cos t \<le> 1" by linarith
  qed
  assume "x \<in> set (hanning M)"
  then show ?thesis
    using c by (auto simp: hanning_def split: if_splits)
qed

lemma hanning_first: "2 \<le> M \<Longrightarrow> hanning M ! 0 = 0"
proof -
  assume M: "2 \<le> M"
  then have "real_of_int (1 - M) = - real_of_int (M - 1)" by simp
  moreover have "real_of_int (M - 1) \<noteq> 0" using M by simp
  ultimately have "pi * real_of_int (1 - M) / real_of_int (M - 1) = - pi"
    by (simp add: field_simps)
  then show ?thesis using M by (simp add: hanning_def)
qed

lemma hanning_last: "2 \<le> M \<Longrightarrow> hanning M ! (nat M - 1) = 0"
proof -
  assume M: "2 \<le> M"
  then have "1 - M + 2 * int (nat M - 1) = M - 1" by simp
  moreover have "real_of_int (M - 1) \<noteq> 0" using M by simp
  ultimately have "pi * real_of_int (1 - M + 2 * int (nat M - 1)) / real_of_int (M - 1) = pi"
    by simp
  then show ?thesis using M by (simp add: hanning_def del: of_int_diff of_int_add of_int_mult)
qed

lemma set_slice_length: "set_slice x i j w = Inr m \<Longrightarrow> length m = length x"
  by (auto simp: set_slice_def slice_len_def Let_def split: if_splits)

lemma set_slice_set: "set_slice x i j w = Inr m \<Longrightarrow> set m \<subseteq> set x \<union> set w"
proof -
  assume a: "set_slice x i j w = Inr m"
  let ?n = "length x" and ?k = "slice_len (length x) i j"
  have t: "set (take (min i ?n) x) \<subseteq> set x" by (rule set_take_subset)
  have d: "set (drop (min i ?n + ?k) x) \<subseteq> set x" by (rule set_drop_subset)
  show ?thesis
  proof (cases "length w = ?k")
    case True
    then have "m = take (min i ?n) x @ w @ drop (min i ?n + ?k) x"
      using a by (simp add: set_slice_def Let_def)
    then show ?thesis using t d by auto
  next
    case False
    then have one: "length w = 1" and
      m: "m = take (min i ?n) x @ replicate ?k (hd w) @ drop (min i ?n + ?k) x"
      using a by (auto simp: set_slice_def Let_def split: if_splits)
    from one have "hd w \<in> set w" by (cases w) simp_all
    then have "set (replicate ?k (hd w)) \<subseteq> set w" by (auto simp: set_replicate_conv_if)
    then show ?thesis using t d m by auto
  qed
qed

lemma hann_filter_Inr:
  assumes "hann_filter lon c ws = Inr m"
  obtains ix where "lon_indices lon c ws = Inr ix" "ix \<noteq> []"
    "set_slice (zeros (length lon)) (hd ix) (last ix + 1) (hanning ws) = Inr m"
  using assms by (auto simp: hann_filter_def split: sum.splits if_splits)

lemma hann_filter_length: "hann_filter lon c ws = Inr m \<Longrightarrow> length m = length lon"
  by (erule hann_filter_Inr) (simp add: set_slice_length zeros_def)

lemma hann_filter_bounds:
  assumes "hann_filter lon c ws = Inr m" and "x \<in> set m"
  shows "0 \<le> x \<and> x \<le> 1"
proof -
  from assms(1) obtain ix where
    "set_slice (zeros (length lon)) (hd ix) (last ix + 1) (hanning ws) = Inr m"
    by (rule hann_filter_Inr)
  then have "set m \<subseteq> set (zeros (length lon)) \<union> set (hanning ws)"
    by (rule set_slice_set)
  with assms(2) have "x \<in> set (zeros (length lon)) \<or> x \<in> set (hanning ws)" by auto
  then show ?thesis
  proof
    assume "x \<in> set (zeros (length lon))"
    then have "x = 0" by (simp add: zeros_def)
    then show ?thesis by simp
  next
    assume "x \<in> set (hanning ws)"
    then show ?thesis by (rule hanning_bounds)
  qed
qed

lemma set_slice_ends:
  assumes s: "set_slice x i j w = Inr m" and w: "2 \<le> length w"
  shows "i < length x" and "m ! i = w ! 0" and "length w \<le> length x - i"
    and "j \<le> length x \<Longrightarrow> j = i + length w"
    and "m ! (i + length w - 1) = w ! (length w - 1)"
proof -
  let ?n = "length x"
  from s w have k: "length w = slice_len ?n i j"
    and m: "m = take (min i ?n) x @ w @ drop (min i ?n + slice_len ?n i j) x"
    by (auto simp: set_slice_def Let_def split: if_splits)
  from k w show i: "i < ?n" by (auto simp: slice_len_def min_def split: if_splits)
  then have mi: "min i ?n = i" by simp
  have lt: "length (take i x) = i" using i by simp
  have nth: "m ! (i + k) = w ! k" if "k < length w" for k
    using m mi lt that by (simp add: nth_append)
  have pos: "0 < length w" and pre: "length w - 1 < length w" using w by linarith+
  from nth [OF pos] show "m ! i = w ! 0" by simp
  show "length w \<le> length x - i" using k i by (auto simp: slice_len_def min_def split: if_splits)
  have "i + length w - 1 = i + (length w - 1)" using w by simp
  with nth [OF pre] show "m ! (i + length w - 1) = w ! (length w - 1)" by simp
  assume j: "j \<le> ?n"
  then show "j = i + length w" using k i w by (auto simp: slice_len_def min_def split: if_splits)
qed

lemma bisect_left_eq:
  "\<forall>i<k. a ! i < v \<Longrightarrow> \<forall>i. k \<le> i \<and> i < length a \<longrightarrow> v \<le> a ! i \<Longrightarrow>
   hi \<le> length a \<Longrightarrow> lo \<le> k \<Longrightarrow> k \<le> hi \<Longrightarrow> bisect_left a v lo hi = k"
proof (induction a v lo hi rule: bisect_left.induct)
  case (1 a v lo hi)
  show ?case
  proof (cases "lo < hi")
    case False
    with "1.prems" show ?thesis by (simp add: bisect_left.simps)
  next
    case True
    let ?mid = "lo + (hi - lo) div 2"
    have mid: "lo \<le> ?mid" "?mid < hi" using True by auto
    then have midn: "?mid < length a" using "1.prems"(3) by linarith
    show ?thesis
    proof (cases "a ! ?mid < v")
      case lt: True
      have "?mid < k"
      proof (rule ccontr)
        assume "\<not> ?mid < k"
        then have "k \<le> ?mid" by simp
        with "1.prems"(2) midn have "v \<le> a ! ?mid" by blast
        with lt show False by simp
      qed
      then have "bisect_left a v (?mid + 1) hi = k"
        using "1.IH"(1) [OF True refl lt] "1.prems" by simp
      then show ?thesis using True lt by (subst bisect_left.simps) (simp add: Let_def)
    next
      case ge: False
      have "k \<le> ?mid"
      proof (rule ccontr)
        assume "\<not> k \<le> ?mid"
        then have "?mid < k" by simp
        with "1.prems"(1) have "a ! ?mid < v" by blast
        with ge show False by simp
      qed
      then have "bisect_left a v lo ?mid = k"
        using "1.IH"(2) [OF True refl ge] "1.prems" mid by simp
      then show ?thesis using True ge by (subst bisect_left.simps) (simp add: Let_def)
    qed
  qed
qed

subsection \<open>The product with the tiled mask\<close>

lemma map2_replicate: "length xs = n \<Longrightarrow> map2 f xs (replicate n y) = map (\<lambda>x. f x y) xs"
  by (induction xs arbitrary: n) auto

lemma mul3_tile:
  assumes "has_shape (s0, s1, s2) v" and "length hf = s2"
  shows "mul3 ((s0, s1, s2), v) (tile hf s0 s1) = Inr ((s0, s1, s2), scale_lon hf v)"
proof -
  have len: "length v = s0" and rows: "\<forall>p\<in>set v. length p = s1"
    using assms(1) by (auto simp: has_shape_def list_all_iff)
  have "map2 (map2 (map2 (*))) v (replicate s0 (replicate s1 hf))
        = map (\<lambda>p. map2 (map2 (*)) p (replicate s1 hf)) v"
    using len by (rule map2_replicate)
  also have "\<dots> = map (map (\<lambda>row. map2 (*) row hf)) v"
    using rows by (auto simp: map2_replicate simp del: map_map)
  finally show ?thesis using assms(2) by (simp add: mul3_def tile_def scale_lon_def)
qed



lemma apply_valid:
  assumes "valid_da da" and "coords da ''lon'' = Some lon"
    and "hann_filter lon (num_val c) ws = Inr hf"
  shows "apply_hann_window_lon E da c ws =
     Inr \<lparr> name = name da, dims = dims da, coords = coords da, shape = shape da,
              vals = scale_lon hf (vals da),
              attrs = (if keep_attrs E then attrs da else Map.empty)
                        (''description'' \<mapsto> description E c ws) \<rparr>"
proof -
  from assms(1,2) have n: "length lon = snd (snd (shape da))" and hs: "has_shape (shape da) (vals da)"
    by (auto simp: valid_da_def split: option.splits)
  obtain s0 s1 s2 where sh: "shape da = (s0, s1, s2)" by (cases "shape da") auto
  have "length hf = s2" using hann_filter_length [OF assms(3)] n sh by simp
  with hs sh have "mul3 (shape da, vals da) (tile hf s0 s1) = Inr (shape da, scale_lon hf (vals da))"
    using mul3_tile [of s0 s1 s2 "vals da" hf] by simp
  with assms(2,3) sh show ?thesis by (simp add: apply_hann_window_lon_def)
qed

lemma set_slice_exact:
  assumes "set_slice x i j w = Inr m" and "2 \<le> length w"
  shows "length w = slice_len (length x) i j"
  using assms by (auto simp: set_slice_def Let_def split: if_splits)




lemma apply_Inr_mask:
  assumes "coords da ''lon'' = Some lon" and "apply_hann_window_lon E da c ws = Inr r"
  obtains m where "hann_filter lon (num_val c) ws = Inr m"
  using assms by (auto simp: apply_hann_window_lon_def split: sum.splits)

subsection \<open>Evaluation on concrete inputs\<close>

lemma bisect_left_unfold:
  "bisect_left a v lo hi =
     (if lo < hi then
        (if a ! (lo + (hi - lo) div 2) < v then bisect_left a v (lo + (hi - lo) div 2 + 1) hi
         else bisect_left a v lo (lo + (hi - lo) div 2))
      else lo)"
  by (subst bisect_left.simps) (simp add: Let_def)

lemma hanning_5: "hanning 5 = [0, 1 / 2, 1, 1 / 2, 0]"
  by (simp add: hanning_def upt_conv_Cons)

lemmas mask_eval =
  hann_filter_def lon_indices_def candidates_def lon_resolution_def arange_def
  left_ext_def right_ext_def int_half_def upt_conv_Cons searchsorted_def bisect_left_unfold
  set_slice_def slice_len_def zeros_def

lemma small_mask: "hann_filter ex_lon 3 5 = Inr [0, 0, 1 / 2, 1, 1 / 2, 0, 0]"
  by (simp add: mask_eval hanning_5)


lemmas str_eval = description_def str_int_def str_nat.simps digit_def

lemma ex_apply:
  "apply_hann_window_lon ex_env ex_da (PyInt 3) 5 =
     Inr \<lparr> name = Some ''t2m'', dims = [''time'', ''lat'', ''lon''],
           coords = [''lon'' \<mapsto> ex_lon], shape = (1, 2, 7),
           vals = [[[0, 0, 3 / 2, 4, 5 / 2, 0, 0], [0, 0, 1, 2, 1, 0, 0]]],
           attrs = [''description'' \<mapsto> ''Hanning window of size 5 applied at 3E''] \<rparr>"
  by (simp add: apply_hann_window_lon_def small_mask mul3_def tile_def str_eval numeral_2_eq_2)

lemma hanning_1: "hanning 1 = [1]"
  by (simp add: hanning_def)


lemma ex_indices: "lon_indices ex_lon 3 5 = Inr [1, 2, 3, 4, 5]"
  by (simp add: mask_eval)


lemma candidates_360: "candidates (map real [0..<360]) 10 5 = Inr [8, 9, 10, 11, 12]"
  by (simp add: candidates_def lon_resolution_def arange_def left_ext_def right_ext_def
      int_half_def upt_conv_Cons)

lemma indices_360: "lon_indices (map real [0..<360]) 10 5 = Inr [8, 9, 10, 11, 12]"
  by (simp add: lon_indices_def candidates_360 searchsorted_def bisect_left_unfold)

lemma mask_360:
  "hann_filter (map real [0..<360]) 10 5 =
     Inr (replicate 8 0 @ [0, 1 / 2, 1, 1 / 2, 0] @ replicate 347 0)"
  by (simp add: hann_filter_def indices_360 hanning_5 set_slice_def slice_len_def zeros_def)

subsection \<open>Windows below the axis and axes with unit spacing\<close>

lemma unit_spaced_nth: "unit_spaced lon \<Longrightarrow> i < length lon \<Longrightarrow> lon ! i = lon ! 0 + real i"
proof -
  assume u: "unit_spaced lon" and i: "i < length lon"
  have "lon ! i = map (\<lambda>i. lon ! 0 + real i) [0 ..< length lon] ! i"
    using u unfolding unit_spaced_def by simp
  also have "\<dots> = lon ! 0 + real i" using i by simp
  finally show ?thesis .
qed



lemma bisect_unit_axis:
  assumes u: "unit_spaced lon" and lo: "lon ! 0 \<le> v"
    and hi: "v \<le> lon ! 0 + real (length lon - 1)" and ne: "lon \<noteq> []"
  shows "bisect_left lon v 0 (length lon) = nat \<lceil>v - lon ! 0\<rceil>"
    and "nat \<lceil>v - lon ! 0\<rceil> < length lon"
proof -
  let ?k = "nat \<lceil>v - lon ! 0\<rceil>" and ?n = "length lon"
  have c0: "0 \<le> \<lceil>v - lon ! 0\<rceil>" using lo by simp
  have "real_of_int (int (?n - 1)) = real (?n - 1)" by simp
  with hi have "v - lon ! 0 \<le> of_int (int (?n - 1))" by linarith
  then have "\<lceil>v - lon ! 0\<rceil> \<le> int (?n - 1)" by (simp only: ceiling_le_iff)
  then have kn: "?k \<le> ?n - 1" by (simp only: nat_le_iff)
  moreover have "0 < ?n" using ne by simp
  ultimately show lt: "?k < ?n" by linarith
  show "bisect_left lon v 0 ?n = ?k"
  proof (rule bisect_left_eq)
    show "\<forall>i<?k. lon ! i < v"
    proof (intro allI impI)
      fix i assume i: "i < ?k"
      then have "int i + 1 \<le> \<lceil>v - lon ! 0\<rceil>" by simp
      then have "of_int (int i + 1) - 1 < v - lon ! 0" by (simp only: le_ceiling_iff)
      then have "lon ! 0 + real i < v" by simp
      moreover have "lon ! i = lon ! 0 + real i" using unit_spaced_nth [OF u] i lt by simp
      ultimately show "lon ! i < v" by simp
    qed
    show "\<forall>i. ?k \<le> i \<and> i < ?n \<longrightarrow> v \<le> lon ! i"
    proof (intro allI impI)
      fix i assume i: "?k \<le> i \<and> i < ?n"
      have "v - lon ! 0 \<le> of_int \<lceil>v - lon ! 0\<rceil>" by simp
      also have "\<dots> = real ?k" using c0 by simp
      also have "\<dots> \<le> real i" using i by simp
      finally have "v \<le> lon ! 0 + real i" by simp
      then show "v \<le> lon ! i" using unit_spaced_nth [OF u] i by simp
    qed
    show "?k \<le> ?n" using lt by (rule less_imp_le)
  qed simp_all
qed

lemma candidates_unit:
  assumes "2 \<le> length lon" and "\<bar>lon ! 0 - lon ! 1\<bar> = 1" and "0 \<le> window_size"
  shows "candidates lon c window_size =
           Inr (map (\<lambda>i. left_ext c window_size + real i) [0 ..< nat (2 * int_half window_size + 1)])"
proof -
  let ?h = "int_half window_size"
  have "right_ext c window_size + 1 - left_ext c window_size = of_int (2 * ?h + 1)"
    by (simp add: right_ext_def left_ext_def)
  then have "\<lceil>(right_ext c window_size + 1 - left_ext c window_size) / 1\<rceil> = 2 * ?h + 1"
    by (simp only: div_by_1 ceiling_of_int)
  then show ?thesis using assms(1,2)
    by (simp add: candidates_def lon_resolution_def arange_def)
qed

lemma int_half_nonneg: "0 \<le> w \<Longrightarrow> 0 \<le> int_half w"
  by (simp add: int_half_def)



lemma unit_spaced_resolution:
  assumes "unit_spaced lon" and "2 \<le> length lon"
  shows "\<bar>lon ! 0 - lon ! 1\<bar> = 1"
proof -
  have "lon ! 1 = lon ! 0 + real 1" using assms by (intro unit_spaced_nth) simp_all
  then show ?thesis by simp
qed

lemma unit_spaced_last:
  assumes "unit_spaced lon" and "2 \<le> length lon"
  shows "last lon = lon ! 0 + real (length lon - 1)"
proof -
  from assms(2) have ne: "lon \<noteq> []" by auto
  then have "last lon = lon ! (length lon - 1)" by (rule last_conv_nth)
  also have "\<dots> = lon ! 0 + real (length lon - 1)"
    using assms by (intro unit_spaced_nth) simp_all
  finally show ?thesis .
qed

lemma indices_unit_axis:
  assumes u: "unit_spaced lon" and n2: "2 \<le> length lon" and w: "0 \<le> ws"
    and lo: "lon ! 0 \<le> left_ext c ws" and hi: "right_ext c ws \<le> last lon"
  shows "lon_indices lon c ws =
           Inr (map (\<lambda>i. nat \<lceil>left_ext c ws - lon ! 0\<rceil> + i) [0 ..< nat (2 * int_half ws + 1)])"
    and "nat \<lceil>left_ext c ws - lon ! 0\<rceil> + nat (2 * int_half ws + 1) \<le> length lon"
proof -
  let ?m = "nat (2 * int_half ws + 1)" and ?a = "nat \<lceil>left_ext c ws - lon ! 0\<rceil>"
  let ?n = "length lon"
  have h: "0 \<le> int_half ws" using w by (rule int_half_nonneg)
  from n2 have ne: "lon \<noteq> []" by auto
  have a0: "0 \<le> \<lceil>left_ext c ws - lon ! 0\<rceil>" using lo by simp
  have c: "candidates lon c ws = Inr (map (\<lambda>i. left_ext c ws + real i) [0 ..< ?m])"
    using n2 unit_spaced_resolution [OF u n2] w by (rule candidates_unit)
  have top: "right_ext c ws \<le> lon ! 0 + real (?n - 1)"
    using hi unit_spaced_last [OF u n2] by simp
  have b: "bisect_left lon (left_ext c ws + real i) 0 ?n = ?a + i \<and> ?a + i < ?n"
    if "i < ?m" for i
  proof -
    let ?v = "left_ext c ws + real i"
    from that h have "real i \<le> 2 * real_of_int (int_half ws)" by linarith
    then have "?v \<le> right_ext c ws" by (simp add: left_ext_def right_ext_def)
    with top have v2: "?v \<le> lon ! 0 + real (?n - 1)" by simp
    have v1: "lon ! 0 \<le> ?v" using lo by simp
    have "?v - lon ! 0 = (left_ext c ws - lon ! 0) + of_int (int i)" by simp
    then have "\<lceil>?v - lon ! 0\<rceil> = \<lceil>left_ext c ws - lon ! 0\<rceil> + int i"
      by (simp only: ceiling_add_of_int)
    then have "nat \<lceil>?v - lon ! 0\<rceil> = ?a + i" using a0 by (simp add: nat_add_distrib)
    with bisect_unit_axis [OF u v1 v2 ne] show ?thesis by simp
  qed
  then have "map (\<lambda>i. bisect_left lon (left_ext c ws + real i) 0 ?n) [0 ..< ?m]
             = map (\<lambda>i. ?a + i) [0 ..< ?m]"
    by (intro map_cong) simp_all
  then show "lon_indices lon c ws = Inr (map (\<lambda>i. ?a + i) [0 ..< ?m])"
    by (simp add: lon_indices_def c searchsorted_def comp_def)
  have "?m - 1 < ?m" using h by simp
  from b [OF this] have "?a + (?m - 1) < ?n" by simp
  then show "?a + ?m \<le> ?n" using h by linarith
qed

lemma mask_unit_axis:
  assumes u: "unit_spaced lon" and n2: "2 \<le> length lon" and w: "0 \<le> ws"
    and lo: "lon ! 0 \<le> left_ext c ws" and hi: "right_ext c ws \<le> last lon"
  shows "hann_filter lon c ws =
           set_slice (zeros (length lon)) (nat \<lceil>left_ext c ws - lon ! 0\<rceil>)
             (nat \<lceil>left_ext c ws - lon ! 0\<rceil> + nat (2 * int_half ws + 1)) (hanning ws)"
    and "slice_len (length lon) (nat \<lceil>left_ext c ws - lon ! 0\<rceil>)
           (nat \<lceil>left_ext c ws - lon ! 0\<rceil> + nat (2 * int_half ws + 1)) = nat (2 * int_half ws + 1)"
proof -
  let ?m = "nat (2 * int_half ws + 1)" and ?a = "nat \<lceil>left_ext c ws - lon ! 0\<rceil>"
  have h: "0 \<le> int_half ws" using w by (rule int_half_nonneg)
  then have m: "0 < ?m" by simp
  have ix: "lon_indices lon c ws = Inr (map (\<lambda>i. ?a + i) [0 ..< ?m])"
    and le: "?a + ?m \<le> length lon"
    using assms by (rule indices_unit_axis)+
  have ne: "map (\<lambda>i. ?a + i) [0 ..< ?m] \<noteq> []" using m by simp
  have hd: "hd (map (\<lambda>i. ?a + i) [0 ..< ?m]) = ?a"
    using m by (simp add: hd_map upt_conv_Cons)
  have "last (map (\<lambda>i. ?a + i) [0 ..< ?m]) = ?a + (?m - 1)"
    using m by (simp add: last_map last_upt)
  then have last: "last (map (\<lambda>i. ?a + i) [0 ..< ?m]) + 1 = ?a + ?m" using m by simp
  show "hann_filter lon c ws = set_slice (zeros (length lon)) ?a (?a + ?m) (hanning ws)"
    using ne by (simp only: hann_filter_def ix sum.case if_False hd last)
  show "slice_len (length lon) ?a (?a + ?m) = ?m"
    using le by (simp add: slice_len_def)
qed


lemma int_half_odd: "0 \<le> w \<Longrightarrow> odd w \<Longrightarrow> 2 * int_half w + 1 = w"
  by (auto simp: int_half_def elim: oddE)

lemma set_slice_fits:
  assumes "a + length w \<le> n"
  shows "set_slice (zeros n) a (a + length w) w =
           Inr (replicate a 0 @ w @ replicate (n - (a + length w)) 0)"
proof -
  have "slice_len n a (a + length w) = length w"
    using assms by (simp add: slice_len_def)
  moreover have "min a n = a" using assms by simp
  ultimately show ?thesis
    by (simp add: set_slice_def Let_def zeros_def)
qed

lemma odd_window_returns_on_unit_axis:
  assumes "unit_spaced lon" and "2 \<le> length lon" and "odd ws" and "1 \<le> ws"
    and "lon ! 0 \<le> left_ext c ws" and "right_ext c ws \<le> last lon"
  shows "hann_filter lon c ws =
           Inr (replicate (nat \<lceil>left_ext c ws - lon ! 0\<rceil>) 0 @ hanning ws @
                replicate (length lon - (nat \<lceil>left_ext c ws - lon ! 0\<rceil> + nat ws)) 0)"
proof -
  define a where "a = nat \<lceil>left_ext c ws - lon ! 0\<rceil>"
  have w: "0 \<le> ws" using assms(4) by simp
  have mm: "nat (2 * int_half ws + 1) = length (hanning ws)"
    using int_half_odd [OF w assms(3)] by (simp add: length_hanning)
  have f: "hann_filter lon c ws = set_slice (zeros (length lon)) a (a + length (hanning ws)) (hanning ws)"
    using mask_unit_axis(1) [OF assms(1,2) w assms(5,6)] unfolding a_def mm .
  have le: "a + length (hanning ws) \<le> length lon"
    using indices_unit_axis(2) [OF assms(1,2) w assms(5,6)] unfolding a_def mm .
  show ?thesis
    unfolding f set_slice_fits [OF le] a_def [symmetric] by (simp add: length_hanning)
qed

text \<open>
  On a well-formed array over an axis with spacing 1, every odd window that lies within
  the axis is accepted: the call returns, with the Hann curve placed on the window.
\<close>

lemma apply_returns_on_unit_axis:
  assumes "valid_da da" and "coords da ''lon'' = Some lon" and "unit_spaced lon"
    and "2 \<le> length lon" and "odd ws" and "1 \<le> ws"
    and "lon ! 0 \<le> left_ext (num_val c) ws" and "right_ext (num_val c) ws \<le> last lon"
  shows "apply_hann_window_lon E da c ws =
     Inr \<lparr> name = name da, dims = dims da, coords = coords da, shape = shape da,
           vals = scale_lon
                    (replicate (nat \<lceil>left_ext (num_val c) ws - lon ! 0\<rceil>) 0 @ hanning ws @
                     replicate (length lon - (nat \<lceil>left_ext (num_val c) ws - lon ! 0\<rceil> + nat ws)) 0)
                    (vals da),
           attrs = (if keep_attrs E then attrs da else Map.empty)
                     (''description'' \<mapsto> description E c ws) \<rparr>"
  using assms(1,2) odd_window_returns_on_unit_axis [OF assms(3-8)] by (rule apply_valid)

text \<open>
  A window that overhangs the right end of the axis by one sample: the last candidate
  is matched one past the end, the slice is clipped, and an even window fits.
\<close>

lemma hanning_4: "hanning 4 = [0, 3 / 4, 3 / 4, 0]"
proof -
  have "cos (pi / 3) = 1 / 2" by (rule cos_60)
  moreover have "cos (- (pi / 3)) = cos (pi / 3)" by (rule cos_minus)
  ultimately show ?thesis by (simp add: hanning_def upt_conv_Cons)
qed

lemma overhang_example:
  "lon_indices ex_lon 5 4 = Inr [3, 4, 5, 6, 7]
   \<and> hann_filter ex_lon 5 4 = Inr [0, 0, 0, 0, 3 / 4, 3 / 4, 0]"
proof -
  have i: "lon_indices ex_lon 5 4 = Inr [3, 4, 5, 6, 7]"
    by (simp add: mask_eval)
  have "hann_filter ex_lon 5 4 = Inr [0, 0, 0, 0, 3 / 4, 3 / 4, 0]"
    by (simp add: hann_filter_def i hanning_4 set_slice_def slice_len_def zeros_def)
  with i show ?thesis by simp
qed

subsection \<open>The function on a store\<close>

lemma array1_at_append: "array1_at h a = Some x \<Longrightarrow> array1_at (h @ xs) a = Some x"
  by (auto simp: array1_at_def nth_append split: if_splits)

lemma array3_at_append: "array3_at h a = Some x \<Longrightarrow> array3_at (h @ xs) a = Some x"
  by (auto simp: array3_at_def nth_append split: if_splits)

lemma dict_at_append: "dict_at h a = Some x \<Longrightarrow> dict_at (h @ xs) a = Some x"
  by (auto simp: dict_at_def nth_append split: if_splits)

lemma da_at_append: "da_at h p = Some da \<Longrightarrow> da_at (h @ xs) p = Some da"
  by (auto simp: da_at_def nth_append array3_at_append dict_at_append
      split: if_splits obj.splits option.splits prod.splits)

lemma store_slice_new:
  "store_slice (h @ [Array1 w, Array1 x]) (Suc (length h)) i j (length h) =
     (case set_slice x i j w of Inl e \<Rightarrow> Inl e | Inr m \<Rightarrow> Inr (h @ [Array1 w, Array1 m]))"
  by (simp add: store_slice_def array1_at_def nth_append list_update_append split: sum.splits)

lemma hann_filter_heap_eq:
  "hann_filter_heap h lon c ws =
     (case hann_filter lon c ws of
        Inl e \<Rightarrow> Inl e
      | Inr m \<Rightarrow> Inr (h @ [Array1 (hanning ws), Array1 m], length h + 1))"
  by (simp add: hann_filter_heap_def hann_filter_def lon_indices_def candidates_def alloc_def
      store_slice_new Let_def split: sum.splits)

lemma copy_da_eq:
  assumes "da_at h p = Some da"
  shows "copy_da h p =
     Inr (h @ [Array3 (shape da) (vals da), Dict (attrs da),
               DataArrayObj (name da) (dims da) (coords da) (length h) (Suc (length h))],
          Suc (Suc (length h)))"
  using assms by (simp add: copy_da_def alloc_def)

lemma da_at_fresh:
  "da_at (h @ [Array3 sh v, Dict d, DataArrayObj nm ds cs (length h) (Suc (length h))] @ xs)
         (Suc (Suc (length h))) =
     Some \<lparr> name = nm, dims = ds, coords = cs, shape = sh, vals = v, attrs = d \<rparr>"
  by (simp add: da_at_def array3_at_def dict_at_def nth_append)

lemma tile_heap_eq:
  assumes "array1_at h x = Some m"
  shows "tile_heap h x s0 s1 =
           Inr (h @ [Array3 (s0, s1, length m) (replicate s0 (replicate s1 m))], length h)"
  using assms by (simp add: tile_heap_def tile_def alloc_def)

lemma mul_da_eq:
  assumes "da_at h x = Some da" and "array3_at h y = Some b"
  shows "mul_da E h x y =
     (case mul3 (shape da, vals da) b of
        Inl e \<Rightarrow> Inl e
      | Inr (sh, v) \<Rightarrow>
          Inr (h @ [Array3 sh v, Dict (if keep_attrs E then attrs da else Map.empty),
                    DataArrayObj (name da) (dims da) (coords da) (length h) (Suc (length h))],
               Suc (Suc (length h))))"
  using assms by (simp add: mul_da_def alloc_def split: sum.splits prod.splits)

lemma new_data_array_eq:
  assumes "da_at h p = Some da" and "w < length h" and "h ! w = DataArrayObj nm ds cs d a"
    and "dict_at h a = Some ats"
  shows "new_data_array h w p =
     Inr (h @ [Dict ats, DataArrayObj (name da) (dims da) (coords da) d (length h)],
          Suc (length h))"
  using assms by (simp add: new_data_array_def alloc_def)

lemma attrs_update_eq:
  assumes "x < length h" and "h ! x = DataArrayObj nm ds cs d a" and "dict_at h a = Some ats"
  shows "attrs_update h x k v = Inr (h[a := Dict (ats(k \<mapsto> v))])"
  using assms by (simp add: attrs_update_def)

lemma apply_heap_error:
  assumes "da_at h p = Some da"
    and "apply_hann_window_lon E da c ws = Inl e"
  shows "apply_hann_window_lon_heap E h p c ws = Inl e"
proof (cases "coords da ''lon''")
  case None
  with assms show ?thesis
    by (simp add: apply_hann_window_lon_heap_def apply_hann_window_lon_def)
next
  case (Some lon)
  show ?thesis
  proof (cases "hann_filter lon (num_val c) ws")
    case (Inl e')
    with assms Some show ?thesis
      by (simp add: apply_hann_window_lon_heap_def apply_hann_window_lon_def hann_filter_heap_eq)
  next
    case (Inr m)
    define H1 where "H1 = h @ [Array1 (hanning ws), Array1 m]"
    obtain s0 s1 s2 where sh: "shape da = (s0, s1, s2)" by (cases "shape da") auto
    define H2 where "H2 = H1 @ [Array3 (s0, s1, length m) (replicate s0 (replicate s1 m))]"
    define H3 where "H3 = H2 @ [Array3 (shape da) (vals da), Dict (attrs da),
               DataArrayObj (name da) (dims da) (coords da) (length H2) (Suc (length H2))]"
    have hf: "hann_filter_heap h lon (num_val c) ws = Inr (H1, Suc (length h))"
      by (simp add: hann_filter_heap_eq Inr H1_def)
    have d1: "da_at H1 p = Some da" unfolding H1_def using assms(1) by (rule da_at_append)
    have m1: "array1_at H1 (Suc (length h)) = Some m"
      by (simp add: H1_def array1_at_def nth_append)
    have t: "tile_heap H1 (Suc (length h)) s0 s1 = Inr (H2, length H1)"
      unfolding H2_def using m1 by (rule tile_heap_eq)
    have d2: "da_at H2 p = Some da" unfolding H2_def using d1 by (rule da_at_append)
    have cp: "copy_da H2 p = Inr (H3, Suc (Suc (length H2)))"
      unfolding H3_def using d2 by (rule copy_da_eq)
    have d3: "da_at H3 (Suc (Suc (length H2))) = Some da"
      using da_at_fresh [of H2 "shape da" "vals da" "attrs da" "name da" "dims da" "coords da" "[]"]
      by (simp add: H3_def)
    have a3: "array3_at H3 (length H1) = Some ((s0, s1, length m), replicate s0 (replicate s1 m))"
      by (simp add: H3_def H2_def array3_at_def nth_append)
    from assms(2) Some Inr sh
    have mu: "mul3 (shape da, vals da) ((s0, s1, length m), replicate s0 (replicate s1 m)) = Inl e"
      by (auto simp: apply_hann_window_lon_def tile_def split: sum.splits prod.splits)
    have "mul_da E H3 (Suc (Suc (length H2))) (length H1) = Inl e"
      by (simp add: mul_da_eq [OF d3 a3] mu)
    then show ?thesis
      using assms(1) Some hf d1 sh t cp
      by (simp add: apply_hann_window_lon_heap_def)
  qed
qed

lemma apply_heap_result:
  assumes "da_at h p = Some da"
    and "apply_hann_window_lon E da c ws = Inr r"
    and lon: "coords da ''lon'' = Some lon"
    and m: "hann_filter lon (num_val c) ws = Inr m"
  shows "apply_hann_window_lon_heap E h p c ws =
     Inr (h @ [Array1 (hanning ws), Array1 m,
               Array3 (fst (shape da), fst (snd (shape da)), length m)
                 (replicate (fst (shape da)) (replicate (fst (snd (shape da))) m)),
               Array3 (shape da) (vals da), Dict (attrs da),
               DataArrayObj (name da) (dims da) (coords da) (length h + 3) (length h + 4),
               Array3 (shape r) (vals r), Dict (if keep_attrs E then attrs da else Map.empty),
               DataArrayObj (name da) (dims da) (coords da) (length h + 6) (length h + 7),
               Dict (attrs r),
               DataArrayObj (name r) (dims r) (coords r) (length h + 6) (length h + 9)],
          length h + 10)"
proof -
  obtain s0 s1 s2 where sh: "shape da = (s0, s1, s2)" by (cases "shape da") auto
  let ?tl = "replicate s0 (replicate s1 m)"
  let ?base = "if keep_attrs E then attrs da else Map.empty"
  from assms(2) lon m sh obtain sh' v where
    mu: "mul3 (shape da, vals da) ((s0, s1, length m), ?tl) = Inr (sh', v)"
    and r: "r = \<lparr> name = name da, dims = dims da, coords = coords da, shape = sh', vals = v,
                   attrs = ?base(''description'' \<mapsto> description E c ws) \<rparr>"
    by (auto simp: apply_hann_window_lon_def tile_def split: sum.splits prod.splits)
  define H1 where "H1 = h @ [Array1 (hanning ws), Array1 m]"
  define H2 where "H2 = H1 @ [Array3 (s0, s1, length m) ?tl]"
  define H3 where "H3 = H2 @ [Array3 (shape da) (vals da), Dict (attrs da),
             DataArrayObj (name da) (dims da) (coords da) (length H2) (Suc (length H2))]"
  define H4 where "H4 = H3 @ [Array3 sh' v, Dict ?base,
             DataArrayObj (name da) (dims da) (coords da) (length H3) (Suc (length H3))]"
  define H5 where "H5 = H4 @ [Dict ?base,
             DataArrayObj (name da) (dims da) (coords da) (length H3) (length H4)]"
  have hf: "hann_filter_heap h lon (num_val c) ws = Inr (H1, Suc (length h))"
    by (simp add: hann_filter_heap_eq m H1_def)
  have d1: "da_at H1 p = Some da" unfolding H1_def using assms(1) by (rule da_at_append)
  have m1: "array1_at H1 (Suc (length h)) = Some m"
    by (simp add: H1_def array1_at_def nth_append)
  have t: "tile_heap H1 (Suc (length h)) s0 s1 = Inr (H2, length H1)"
    unfolding H2_def using m1 by (rule tile_heap_eq)
  have d2: "da_at H2 p = Some da" unfolding H2_def using d1 by (rule da_at_append)
  have cp: "copy_da H2 p = Inr (H3, Suc (Suc (length H2)))"
    unfolding H3_def using d2 by (rule copy_da_eq)
  have d3: "da_at H3 (Suc (Suc (length H2))) = Some da"
    using da_at_fresh [of H2 "shape da" "vals da" "attrs da" "name da" "dims da" "coords da" "[]"]
    by (simp add: H3_def)
  have a3: "array3_at H3 (length H1) = Some ((s0, s1, length m), ?tl)"
    by (simp add: H3_def H2_def array3_at_def nth_append)
  have ml: "mul_da E H3 (Suc (Suc (length H2))) (length H1) = Inr (H4, Suc (Suc (length H3)))"
    by (simp add: mul_da_eq [OF d3 a3] mu H4_def)
  have d4: "da_at H4 p = Some da"
    unfolding H4_def H3_def using d2 by (intro da_at_append)
  have w4: "Suc (Suc (length H3)) < length H4"
    "H4 ! Suc (Suc (length H3)) =
       DataArrayObj (name da) (dims da) (coords da) (length H3) (Suc (length H3))"
    "dict_at H4 (Suc (length H3)) = Some ?base"
    by (simp_all add: H4_def dict_at_def nth_append)
  have nw: "new_data_array H4 (Suc (Suc (length H3))) p = Inr (H5, Suc (length H4))"
    unfolding H5_def by (rule new_data_array_eq [OF d4 w4])
  have r5: "Suc (length H4) < length H5"
    "H5 ! Suc (length H4) = DataArrayObj (name da) (dims da) (coords da) (length H3) (length H4)"
    "dict_at H5 (length H4) = Some ?base"
    by (simp_all add: H5_def dict_at_def nth_append)
  have up: "attrs_update H5 (Suc (length H4)) ''description'' (description E c ws) =
              Inr (H5[length H4 := Dict (?base(''description'' \<mapsto> description E c ws))])"
    by (rule attrs_update_eq [OF r5])
  have run: "apply_hann_window_lon_heap E h p c ws =
     Inr (H5[length H4 := Dict (?base(''description'' \<mapsto> description E c ws))], Suc (length H4))"
    using assms(1) lon hf d1 sh t cp ml nw up
    by (simp add: apply_hann_window_lon_heap_def)
  have fin: "H5[length H4 := Dict (?base(''description'' \<mapsto> description E c ws))] =
     h @ [Array1 (hanning ws), Array1 m, Array3 (s0, s1, length m) ?tl,
               Array3 (shape da) (vals da), Dict (attrs da),
               DataArrayObj (name da) (dims da) (coords da) (length h + 3) (length h + 4),
               Array3 sh' v, Dict ?base,
               DataArrayObj (name da) (dims da) (coords da) (length h + 6) (length h + 7),
               Dict (?base(''description'' \<mapsto> description E c ws)),
               DataArrayObj (name da) (dims da) (coords da) (length h + 6) (length h + 9)]"
    by (simp add: H5_def H4_def H3_def H2_def H1_def list_update_append)
  have len: "Suc (length H4) = length h + 10"
    by (simp add: H4_def H3_def H2_def H1_def)
  show ?thesis
    using run fin len sh r by simp
qed

lemma apply_Inr_parts:
  assumes "apply_hann_window_lon E da c ws = Inr r"
  obtains lon m where "coords da ''lon'' = Some lon" and "hann_filter lon (num_val c) ws = Inr m"
  using assms by (auto simp: apply_hann_window_lon_def split: option.splits sum.splits)

lemma apply_heap_Inr:
  assumes "apply_hann_window_lon_heap E h p c ws = Inr (h', r)"
  obtains da r0 where "da_at h p = Some da" and "apply_hann_window_lon E da c ws = Inr r0"
proof -
  from assms obtain da where da: "da_at h p = Some da"
    by (auto simp: apply_hann_window_lon_heap_def split: option.splits)
  have "\<exists>r0. apply_hann_window_lon E da c ws = Inr r0"
  proof (cases "apply_hann_window_lon E da c ws")
    case (Inl e)
    with da have "apply_hann_window_lon_heap E h p c ws = Inl e" by (rule apply_heap_error)
    with assms show ?thesis by simp
  next
    case (Inr r0)
    then show ?thesis by blast
  qed
  with da show ?thesis using that by blast
qed


lemma ex_heap_da: "da_at ex_heap 2 = Some ex_da"
  by (simp add: da_at_def array3_at_def dict_at_def)


subsection \<open>The claims\<close>



text \<open>
  C2. On the axis 0, 1, ..., 359 with \<open>center_lon = 10\<close> and \<open>window_size = 5\<close> the
  candidates are matched to the positions 8 to 12, the mask is zero except at those
  positions, where it holds 0, 0.5, 1, 0.5, 0, and the function returns the input
  multiplied elementwise by that mask, broadcast over time and latitude.
\<close>

theorem scenario_center_10_size_5:
  assumes "valid_da da" and "coords da ''lon'' = Some (map real [0..<360])"
  shows "lon_indices (map real [0..<360]) 10 5 = Inr [8, 9, 10, 11, 12]
       \<and> hann_filter (map real [0..<360]) 10 5 =
           Inr (replicate 8 0 @ [0, 1 / 2, 1, 1 / 2, 0] @ replicate 347 0)
       \<and> apply_hann_window_lon E da (PyInt 10) 5 =
           Inr \<lparr> name = name da, dims = dims da, coords = coords da, shape = shape da,
                 vals = scale_lon (replicate 8 0 @ [0, 1 / 2, 1, 1 / 2, 0] @ replicate 347 0) (vals da),
                 attrs = (if keep_attrs E then attrs da else Map.empty)
                           (''description'' \<mapsto> ''Hanning window of size 5 applied at 10E'') \<rparr>"
proof -
  have d: "description E (PyInt 10) 5 = ''Hanning window of size 5 applied at 10E''"
    by (simp add: str_eval)
  have m: "hann_filter (map real [0..<360]) (num_val (PyInt 10)) 5 =
     Inr (replicate 8 0 @ [0, 1 / 2, 1, 1 / 2, 0] @ replicate 347 0)"
    using mask_360 by simp
  show ?thesis
    using apply_valid [OF assms m, of E] indices_360 mask_360 d by simp
qed

theorem scenario_center_10_size_5_witness:
  "valid_da \<lparr> name = None, dims = [''time'', ''lat'', ''lon''],
              coords = [''lon'' \<mapsto> map real [0..<360]], shape = (1, 1, 360),
              vals = [[replicate 360 2]], attrs = Map.empty \<rparr>
   \<and> apply_hann_window_lon ex_env
        \<lparr> name = None, dims = [''time'', ''lat'', ''lon''],
              coords = [''lon'' \<mapsto> map real [0..<360]], shape = (1, 1, 360),
              vals = [[replicate 360 2]], attrs = Map.empty \<rparr> (PyInt 10) 5 =
      Inr \<lparr> name = None, dims = [''time'', ''lat'', ''lon''],
              coords = [''lon'' \<mapsto> map real [0..<360]], shape = (1, 1, 360),
              vals = scale_lon (replicate 8 0 @ [0, 1 / 2, 1, 1 / 2, 0] @ replicate 347 0)
                       [[replicate 360 2]],
              attrs = [''description'' \<mapsto> ''Hanning window of size 5 applied at 10E''] \<rparr>"
proof -
  let ?da = "\<lparr> name = None, dims = [''time'', ''lat'', ''lon''],
              coords = [''lon'' \<mapsto> map real [0..<360]], shape = (1, 1, 360),
              vals = [[replicate 360 (2::real)]], attrs = Map.empty \<rparr>"
  have v: "valid_da ?da" by (simp add: valid_da_def has_shape_def)
  have c: "coords ?da ''lon'' = Some (map real [0..<360])" by simp
  from scenario_center_10_size_5 [OF v c, of ex_env] show ?thesis
    using v by simp
qed

text \<open>
  C3, as amended. For every window size of at least 2 and every input on which the
  function returns, the mask is exactly 0 at the first matched position and at the
  last matched position (read as the last position of the axis when the last candidate
  is matched one past its end). For \<open>window_size = 1\<close> numpy's Hann curve is the single
  value 1, and the claim as stated fails.
\<close>

theorem window_ends_are_zero:
  assumes "2 \<le> window_size" and "coords da ''lon'' = Some lon"
    and "apply_hann_window_lon E da center_lon window_size = Inr r"
  shows "\<exists>ix m. lon_indices lon (num_val center_lon) window_size = Inr ix \<and> ix \<noteq> []
           \<and> hann_filter lon (num_val center_lon) window_size = Inr m
           \<and> hd ix < length lon
           \<and> m ! hd ix = 0
           \<and> m ! min (last ix) (length lon - 1) = 0"
proof -
  from assms(2,3) obtain m where m: "hann_filter lon (num_val center_lon) window_size = Inr m"
    by (rule apply_Inr_mask)
  then obtain ix where ix: "lon_indices lon (num_val center_lon) window_size = Inr ix" "ix \<noteq> []"
    and s: "set_slice (zeros (length lon)) (hd ix) (last ix + 1) (hanning window_size) = Inr m"
    by (rule hann_filter_Inr)
  let ?w = "hanning window_size" and ?n = "length lon"
  have lw: "length ?w = nat window_size" by (rule length_hanning)
  with assms(1) have w2: "2 \<le> length ?w" by simp
  have n: "length (zeros ?n) = ?n" by (simp add: zeros_def)
  have first: "hd ix < ?n" "m ! hd ix = ?w ! 0"
    using set_slice_ends(1,2) [OF s w2] n by simp_all
  have lastw: "m ! (hd ix + length ?w - 1) = ?w ! (length ?w - 1)"
    by (rule set_slice_ends(5) [OF s w2])
  have k: "length ?w = slice_len ?n (hd ix) (last ix + 1)"
    using set_slice_exact [OF s w2] n by simp
  have "min (last ix) (?n - 1) = hd ix + length ?w - 1"
    using k first(1) w2 by (auto simp: slice_len_def min_def split: if_splits)
  then have "m ! min (last ix) (?n - 1) = ?w ! (nat window_size - 1)"
    using lastw lw by simp
  then have "m ! min (last ix) (?n - 1) = 0"
    using hanning_last [OF assms(1)] by simp
  moreover have "m ! hd ix = 0" using first(2) hanning_first [OF assms(1)] by simp
  ultimately show ?thesis using ix m first(1) by blast
qed

theorem window_ends_are_zero_witness:
  "(2::int) \<le> 5 \<and> coords ex_da ''lon'' = Some ex_lon
   \<and> lon_indices ex_lon 3 5 = Inr [1, 2, 3, 4, 5]
   \<and> hann_filter ex_lon 3 5 = Inr [0, 0, 1 / 2, 1, 1 / 2, 0, 0]
   \<and> [0, 0, 1 / 2, 1, 1 / 2, 0, 0 :: real] ! hd [1, 2, 3, 4, 5] = 0
   \<and> [0, 0, 1 / 2, 1, 1 / 2, 0, 0 :: real] ! min (last [1, 2, 3, 4, 5]) (length ex_lon - 1) = 0"
proof -
  have a: "(2::int) \<le> 5" and c: "coords ex_da ''lon'' = Some ex_lon" by simp_all
  from window_ends_are_zero [OF a c, of ex_env "PyInt 3", OF ex_apply]
  show ?thesis using ex_indices small_mask by auto
qed

text \<open>
  Against C3 as stated, for \<open>window_size = 1\<close>: the call returns, position 3 is both
  the first and the last matched position, and the mask there is 1.
\<close>

theorem single_sample_window_end_is_one:
  "apply_hann_window_lon ex_env ex_da (PyInt 3) 1 =
     Inr \<lparr> name = Some ''t2m'', dims = [''time'', ''lat'', ''lon''],
           coords = [''lon'' \<mapsto> ex_lon], shape = (1, 2, 7),
           vals = [[[0, 0, 0, 4, 0, 0, 0], [0, 0, 0, 2, 0, 0, 0]]],
           attrs = [''description'' \<mapsto> ''Hanning window of size 1 applied at 3E''] \<rparr>
   \<and> lon_indices ex_lon 3 1 = Inr [3]
   \<and> hann_filter ex_lon 3 1 = Inr [0, 0, 0, 1, 0, 0, 0]
   \<and> [0, 0, 0, 1, 0, 0, 0 :: real] ! 3 = 1"
proof -
  have i: "lon_indices ex_lon 3 1 = Inr [3]" by (simp add: mask_eval)
  have m: "hann_filter ex_lon 3 1 = Inr [0, 0, 0, 1, 0, 0, 0]"
    by (simp add: hann_filter_def i hanning_1 set_slice_def slice_len_def zeros_def)
  have "apply_hann_window_lon ex_env ex_da (PyInt 3) 1 =
     Inr \<lparr> name = Some ''t2m'', dims = [''time'', ''lat'', ''lon''],
           coords = [''lon'' \<mapsto> ex_lon], shape = (1, 2, 7),
           vals = [[[0, 0, 0, 4, 0, 0, 0], [0, 0, 0, 2, 0, 0, 0]]],
           attrs = [''description'' \<mapsto> ''Hanning window of size 1 applied at 3E''] \<rparr>"
    by (simp add: apply_hann_window_lon_def m mul3_def tile_def str_eval numeral_2_eq_2)
  with i m show ?thesis by simp
qed



text \<open>
  C5. A call that returns leaves every object of the store it started from as it was,
  among them the input array with its values, coordinates, dimensions and attributes;
  the returned array, its value buffer and its attribute dictionary are objects
  allocated during the call.
\<close>

theorem input_store_unchanged:
  assumes "apply_hann_window_lon_heap E h p center_lon window_size = Inr (h', r)"
  shows "length h \<le> length h' \<and> take (length h) h' = h \<and> da_at h' p = da_at h p
       \<and> length h \<le> r \<and> r < length h'
       \<and> (case h' ! r of
             DataArrayObj nm ds cs d a \<Rightarrow> length h \<le> d \<and> length h \<le> a
           | _ \<Rightarrow> False)"
proof -
  from assms obtain da r0 where da: "da_at h p = Some da"
    and r0: "apply_hann_window_lon E da center_lon window_size = Inr r0"
    by (rule apply_heap_Inr)
  from r0 obtain lon m where lon: "coords da ''lon'' = Some lon"
    and m: "hann_filter lon (num_val center_lon) window_size = Inr m"
    by (rule apply_Inr_parts)
  from assms apply_heap_result [OF da r0 lon m]
  have h': "h' = h @ [Array1 (hanning window_size), Array1 m,
               Array3 (fst (shape da), fst (snd (shape da)), length m)
                 (replicate (fst (shape da)) (replicate (fst (snd (shape da))) m)),
               Array3 (shape da) (vals da), Dict (attrs da),
               DataArrayObj (name da) (dims da) (coords da) (length h + 3) (length h + 4),
               Array3 (shape r0) (vals r0), Dict (if keep_attrs E then attrs da else Map.empty),
               DataArrayObj (name da) (dims da) (coords da) (length h + 6) (length h + 7),
               Dict (attrs r0),
               DataArrayObj (name r0) (dims r0) (coords r0) (length h + 6) (length h + 9)]"
    and r: "r = length h + 10"
    by simp_all
  have "da_at h' p = da_at h p" unfolding h' using da da_at_append [OF da] by simp
  moreover have "h' ! r = DataArrayObj (name r0) (dims r0) (coords r0) (length h + 6) (length h + 9)"
    unfolding h' r by (simp add: nth_append)
  moreover have "length h \<le> length h'" "take (length h) h' = h" "r < length h'"
    unfolding h' r by simp_all
  ultimately show ?thesis using r by simp
qed

theorem input_store_unchanged_witness:
  "(case apply_hann_window_lon_heap ex_env ex_heap 2 (PyInt 3) 5 of
      Inl e \<Rightarrow> False
    | Inr (h', r) \<Rightarrow>
        r = 13 \<and> length h' = 14 \<and> take 3 h' = ex_heap \<and> da_at h' 2 = Some ex_da
        \<and> h' ! r = DataArrayObj (Some ''t2m'') [''time'', ''lat'', ''lon'']
                      [''lon'' \<mapsto> ex_lon] 9 12
        \<and> h' ! 9 = Array3 (1, 2, 7) [[[0, 0, 3 / 2, 4, 5 / 2, 0, 0], [0, 0, 1, 2, 1, 0, 0]]]
        \<and> h' ! 12 = Dict [''description'' \<mapsto> ''Hanning window of size 5 applied at 3E''])"
proof -
  have lon: "coords ex_da ''lon'' = Some ex_lon" by simp
  have m: "hann_filter ex_lon (num_val (PyInt 3)) 5 = Inr [0, 0, 1 / 2, 1, 1 / 2, 0, 0]"
    using small_mask by simp
  note run = apply_heap_result [OF ex_heap_da ex_apply lon m]
  obtain h' r where hr: "apply_hann_window_lon_heap ex_env ex_heap 2 (PyInt 3) 5 = Inr (h', r)"
    using run by simp
  from input_store_unchanged [OF hr] show ?thesis
    using run hr ex_heap_da by (auto simp: nth_append)
qed



text \<open>
  C7. Whatever the window size, every entry of the mask that the function builds lies
  between 0 and 1: it is either one of the zeros the mask starts from or a value of the
  Hann curve.
\<close>

theorem mask_between_zero_and_one:
  assumes "hann_filter lon center_lon window_size = Inr m" and "i < length m"
  shows "0 \<le> m ! i \<and> m ! i \<le> 1"
  using assms hann_filter_bounds [of lon center_lon window_size m "m ! i"] by simp

theorem mask_between_zero_and_one_witness:
  "hann_filter ex_lon 3 5 = Inr [0, 0, 1 / 2, 1, 1 / 2, 0, 0]
   \<and> (0::real) \<le> [0, 0, 1 / 2, 1, 1 / 2, 0, 0] ! 2 \<and> [0, 0, 1 / 2, 1, 1 / 2, 0, 0 :: real] ! 2 \<le> 1"
  using small_mask mask_between_zero_and_one [OF small_mask, of 2] by simp









end
